theory Spec2Isabelle
  imports Complex_Main
begin

section \<open>The Mneme decision simulator (Backend/decision\_simulator.py)\<close>

text \<open>
  Python floats are idealised as \<^typ>\<open>real\<close>: rounding, infinities and NaN are outside
  the model. Python integers are \<^typ>\<open>int\<close>. A Python \<^verbatim>\<open>dict\<close> keeps its keys in
  insertion order, and the simulator iterates over its dictionaries, so a dictionary is
  a list of key/value pairs with distinct keys, in insertion order.
\<close>

subsection \<open>Dictionaries in insertion order\<close>

text \<open>\<^verbatim>\<open>d[k] = v\<close>: an existing key keeps its position, a new key goes to the end.\<close>

primrec dict_set :: "'k \<Rightarrow> 'v \<Rightarrow> ('k \<times> 'v) list \<Rightarrow> ('k \<times> 'v) list" where
  "dict_set k v [] = [(k, v)]"
| "dict_set k v (p # ps) = (if fst p = k then (k, v) # ps else p # dict_set k v ps)"

text \<open>\<^verbatim>\<open>d.get(k)\<close> and \<^verbatim>\<open>k in d\<close>: the lookup gives \<open>None\<close> for an absent key.\<close>

definition dict_get :: "('k \<times> 'v) list \<Rightarrow> 'k \<Rightarrow> 'v option" where
  "dict_get d k = map_of d k"

text \<open>The comprehension \<^verbatim>\<open>{key(x): val(x) for x in xs}\<close>.\<close>

definition dict_comp :: "('a \<Rightarrow> 'k) \<Rightarrow> ('a \<Rightarrow> 'v) \<Rightarrow> 'a list \<Rightarrow> ('k \<times> 'v) list" where
  "dict_comp key val xs = fold (\<lambda>x d. dict_set (key x) (val x) d) xs []"

subsection \<open>Data model\<close>

record Choice =
  c_id :: int
  c_name :: string
  c_description :: "string option"

record Factor =
  f_id :: int
  f_name :: string
  f_weight :: real
  f_description :: "string option"

record Score =
  s_choice_id :: int
  s_factor_id :: int
  s_score :: real
  s_uncertainty :: real

text \<open>The fields of a \<^verbatim>\<open>DecisionSimulator\<close> instance.\<close>

record simulator =
  choices :: "(int \<times> Choice) list"
  factors :: "(int \<times> Factor) list"
  scores :: "(int \<times> (int \<times> Score) list) list"
  normalized_weights :: "(int \<times> real) list"

subsection \<open>Construction\<close>

text \<open>
  \<^verbatim>\<open>_organize_scores\<close>: scores by choice id, then by factor id. A later score for
  the same pair replaces the earlier one.
\<close>

definition organize_step :: "Score \<Rightarrow> (int \<times> (int \<times> Score) list) list
    \<Rightarrow> (int \<times> (int \<times> Score) list) list" where
  "organize_step score organized =
     (let organized' = (case dict_get organized (s_choice_id score) of
                          None \<Rightarrow> dict_set (s_choice_id score) [] organized
                        | Some _ \<Rightarrow> organized);
          row = (case dict_get organized' (s_choice_id score) of
                   None \<Rightarrow> [] | Some r \<Rightarrow> r)
      in dict_set (s_choice_id score) (dict_set (s_factor_id score) score row) organized')"

definition organize_scores :: "Score list \<Rightarrow> (int \<times> (int \<times> Score) list) list" where
  "organize_scores ss = fold organize_step ss []"

text \<open>
  \<^verbatim>\<open>__init__\<close>. The total is taken over the factor list as supplied; the fallback
  \<^verbatim>\<open>1.0 / len(factors)\<close> is only evaluated inside the comprehension, so an empty
  factor list divides nothing.
\<close>

definition normalize_weights :: "Factor list \<Rightarrow> (int \<times> real) list" where
  "normalize_weights fs =
     (let total_weight = sum_list (map f_weight fs)
      in dict_comp f_id
           (\<lambda>f. if total_weight > 0 then f_weight f / total_weight
                else 1 / real (length fs)) fs)"

definition DecisionSimulator :: "Choice list \<Rightarrow> Factor list \<Rightarrow> Score list \<Rightarrow> simulator" where
  "DecisionSimulator cs fs ss =
     \<lparr> choices = dict_comp c_id (\<lambda>c. c) cs,
       factors = dict_comp f_id (\<lambda>f. f) fs,
       scores = organize_scores ss,
       normalized_weights = normalize_weights fs \<rparr>"

subsection \<open>Errors\<close>

text \<open>
  The exceptions the simulator can raise: \<^verbatim>\<open>KeyError\<close> from indexing a dictionary
  with an absent key, \<^verbatim>\<open>ValueError\<close> from numpy or \<^verbatim>\<open>max\<close> on an empty
  sequence, \<^verbatim>\<open>ZeroDivisionError\<close> from dividing by the integer zero. numpy's
  float division by zero raises nothing: it gives \<^verbatim>\<open>inf\<close> or \<^verbatim>\<open>nan\<close>, which are
  not reals; the model stops there with \<open>NonFinite\<close>.
\<close>

datatype error = KeyError int | ValueError | ZeroDivisionError | NonFinite

definition dict_index :: "(int \<times> 'v) list \<Rightarrow> int \<Rightarrow> error + 'v" where
  "dict_index d k = (case dict_get d k of None \<Rightarrow> Inl (KeyError k) | Some v \<Rightarrow> Inr v)"

subsection \<open>Deterministic weighted score\<close>

definition calculate_weighted_score :: "simulator \<Rightarrow> int \<Rightarrow> real" where
  "calculate_weighted_score sim choice_id =
     (case dict_get (scores sim) choice_id of
        None \<Rightarrow> 0
      | Some row \<Rightarrow>
          fold (\<lambda>(factor_id, weight) total.
                 case dict_get row factor_id of
                   None \<Rightarrow> total
                 | Some score_obj \<Rightarrow> total + s_score score_obj * weight)
               (normalized_weights sim) 0)"

subsection \<open>The random stream and one simulated total\<close>

text \<open>
  A \<^verbatim>\<open>numpy.random.Generator\<close> is a stream of standard normal variates and the
  number already consumed. \<^verbatim>\<open>rng.normal(loc, scale)\<close> takes the next variate \<open>z\<close>
  and returns \<open>loc + scale * z\<close>.
\<close>

record Generator =
  variates :: "nat \<Rightarrow> real"
  consumed :: nat

definition normal :: "Generator \<Rightarrow> real \<Rightarrow> real \<Rightarrow> real \<times> Generator" where
  "normal rng loc scale =
     (loc + scale * variates rng (consumed rng), rng\<lparr>consumed := Suc (consumed rng)\<rparr>)"

text \<open>The sampling step of \<^verbatim>\<open>simulate_once\<close> (the body of its \<^verbatim>\<open>if\<close>).\<close>

definition sample_score :: "Score \<Rightarrow> Generator \<Rightarrow> real \<times> Generator" where
  "sample_score score_obj rng =
     (if s_uncertainty score_obj > 0 then
        (case normal rng (s_score score_obj) (s_uncertainty score_obj) of
           (sampled, rng') \<Rightarrow> (max 0 (min 10 sampled), rng'))
      else (s_score score_obj, rng))"

definition simulate_once :: "simulator \<Rightarrow> int \<Rightarrow> Generator \<Rightarrow> real \<times> Generator" where
  "simulate_once sim choice_id rng =
     (case dict_get (scores sim) choice_id of
        None \<Rightarrow> (0, rng)
      | Some row \<Rightarrow>
          fold (\<lambda>(factor_id, weight) (total, rng).
                 case dict_get row factor_id of
                   None \<Rightarrow> (total, rng)
                 | Some score_obj \<Rightarrow>
                     (case sample_score score_obj rng of
                        (sampled, rng') \<Rightarrow> (total + sampled * weight, rng')))
               (normalized_weights sim) (0, rng))"

subsection \<open>Winner of a dictionary of totals\<close>

text \<open>
  \<^verbatim>\<open>max(d, key=d.get)\<close> walks the keys in dictionary order and replaces its
  candidate only by a strictly greater value; on an empty dictionary it raises
  \<^verbatim>\<open>ValueError\<close> (here \<open>None\<close>).
\<close>

fun max_from :: "'k \<times> real \<Rightarrow> ('k \<times> real) list \<Rightarrow> 'k" where
  "max_from best [] = fst best"
| "max_from best (p # ps) = max_from (if snd p > snd best then p else best) ps"

definition py_max :: "('k \<times> real) list \<Rightarrow> 'k option" where
  "py_max d = (case d of [] \<Rightarrow> None | p # ps \<Rightarrow> Some (max_from p ps))"

subsection \<open>The simulation rounds\<close>

text \<open>
  \<^verbatim>\<open>d[k].append(x)\<close> and \<^verbatim>\<open>d[k] += 1\<close> change the entry of a key. Both
  dictionaries they are applied to are built from the keys of \<^verbatim>\<open>self.choices\<close>, and
  \<open>k\<close> is one of those keys, so the key is present.
\<close>

primrec dict_map_entry :: "'k \<Rightarrow> ('v \<Rightarrow> 'v) \<Rightarrow> ('k \<times> 'v) list \<Rightarrow> ('k \<times> 'v) list" where
  "dict_map_entry k f [] = []"
| "dict_map_entry k f (p # ps) =
     (if fst p = k then (k, f (snd p)) # ps else p # dict_map_entry k f ps)"

definition MAX_SIMULATION_RUNS :: int where
  "MAX_SIMULATION_RUNS = 10000"

text \<open>The inner loop of a round: one simulated total per choice, in dictionary order.\<close>

definition simulate_choices :: "simulator \<Rightarrow> (int \<times> real list) list \<Rightarrow> Generator
    \<Rightarrow> (int \<times> real) list \<times> (int \<times> real list) list \<times> Generator" where
  "simulate_choices sim all_results rng =
     fold (\<lambda>choice_id (round_scores, all_results, rng).
            case simulate_once sim choice_id rng of
              (x, rng') \<Rightarrow>
                (dict_set choice_id x round_scores,
                 dict_map_entry choice_id (\<lambda>xs. xs @ [x]) all_results,
                 rng'))
          (map fst (choices sim)) ([], all_results, rng)"

text \<open>One round: the totals, then the winner's counter (skipped when there is no choice).\<close>

definition simulation_round :: "simulator
    \<Rightarrow> (int \<times> real list) list \<times> (int \<times> nat) list \<times> Generator
    \<Rightarrow> (int \<times> real list) list \<times> (int \<times> nat) list \<times> Generator" where
  "simulation_round sim st =
     (case st of (all_results, win_counts, rng) \<Rightarrow>
        (case simulate_choices sim all_results rng of
           (round_scores, all_results', rng') \<Rightarrow>
             (case py_max round_scores of
                None \<Rightarrow> (all_results', win_counts, rng')
              | Some winner \<Rightarrow> (all_results', dict_map_entry winner Suc win_counts, rng'))))"

text \<open>\<^verbatim>\<open>for _ in range(num_runs)\<close>: no round at all when \<open>num_runs \<le> 0\<close>.\<close>

fun run_rounds :: "simulator \<Rightarrow> nat
    \<Rightarrow> (int \<times> real list) list \<times> (int \<times> nat) list \<times> Generator
    \<Rightarrow> (int \<times> real list) list \<times> (int \<times> nat) list \<times> Generator" where
  "run_rounds sim 0 st = st"
| "run_rounds sim (Suc n) st = run_rounds sim n (simulation_round sim st)"

text \<open>
  The state after the loop of \<^verbatim>\<open>run_simulation\<close>: the sample series, the win counters
  and the generator. \<open>num_runs\<close> is the run count as passed in.
\<close>

definition simulation_loop :: "simulator \<Rightarrow> int \<Rightarrow> Generator
    \<Rightarrow> (int \<times> real list) list \<times> (int \<times> nat) list \<times> Generator" where
  "simulation_loop sim num_runs rng =
     run_rounds sim (nat (min num_runs MAX_SIMULATION_RUNS))
       (dict_comp (\<lambda>choice_id. choice_id) (\<lambda>_. []) (map fst (choices sim)),
        dict_comp (\<lambda>choice_id. choice_id) (\<lambda>_. 0) (map fst (choices sim)),
        rng)"

subsection \<open>Statistics\<close>

text \<open>
  numpy's reductions over a sample series, on reals. \<^verbatim>\<open>np.min\<close> and \<^verbatim>\<open>np.max\<close>
  raise \<^verbatim>\<open>ValueError\<close> on an empty array; \<^verbatim>\<open>np.mean\<close> and \<^verbatim>\<open>np.std\<close> only
  warn there, and \<^verbatim>\<open>np.min\<close> is the first reduction after them, so an empty series
  ends in \<^verbatim>\<open>ValueError\<close>. \<^verbatim>\<open>np.percentile\<close> interpolates linearly between
  order statistics.
\<close>

definition np_mean :: "real list \<Rightarrow> real" where
  "np_mean xs = sum_list xs / real (length xs)"

definition np_std :: "real list \<Rightarrow> real" where
  "np_std xs = sqrt (np_mean (map (\<lambda>x. (x - np_mean xs)\<^sup>2) xs))"

definition np_min :: "real list \<Rightarrow> real" where
  "np_min xs = fold min (tl xs) (hd xs)"

definition np_max :: "real list \<Rightarrow> real" where
  "np_max xs = fold max (tl xs) (hd xs)"

definition np_percentile :: "real list \<Rightarrow> real \<Rightarrow> real" where
  "np_percentile xs q =
     (let sorted_xs = sort xs;
          n = length xs;
          h = q / 100 * real (n - 1);
          lo = nat \<lfloor>h\<rfloor>;
          hi = min (lo + 1) (n - 1)
      in sorted_xs ! lo + (h - real lo) * (sorted_xs ! hi - sorted_xs ! lo))"

record choice_stats =
  st_choice_id :: int
  st_name :: string
  st_deterministic_score :: real
  st_mean :: real
  st_std :: real
  st_min :: real
  st_max :: real
  st_percentile_5 :: real
  st_percentile_25 :: real
  st_percentile_50 :: real
  st_percentile_75 :: real
  st_percentile_95 :: real
  st_win_rate :: real

record report =
  num_simulations :: int
  choice_results :: "(int \<times> choice_stats) list"
  rankings :: "choice_stats list"
  win_rates :: "(string \<times> real) list"

text \<open>The dictionary literal built for one choice, its entries evaluated in order.\<close>

definition stats_of :: "simulator \<Rightarrow> int \<Rightarrow> (int \<times> nat) list \<Rightarrow> int \<Rightarrow> real list
    \<Rightarrow> error + choice_stats" where
  "stats_of sim num_runs win_counts choice_id results =
     (case dict_index (choices sim) choice_id of
        Inl e \<Rightarrow> Inl e
      | Inr c \<Rightarrow>
          if results = [] then Inl ValueError
          else (case dict_index win_counts choice_id of
                  Inl e \<Rightarrow> Inl e
                | Inr count \<Rightarrow>
                    if num_runs = 0 then Inl ZeroDivisionError
                    else Inr \<lparr> st_choice_id = choice_id,
                               st_name = c_name c,
                               st_deterministic_score = calculate_weighted_score sim choice_id,
                               st_mean = np_mean results,
                               st_std = np_std results,
                               st_min = np_min results,
                               st_max = np_max results,
                               st_percentile_5 = np_percentile results 5,
                               st_percentile_25 = np_percentile results 25,
                               st_percentile_50 = np_percentile results 50,
                               st_percentile_75 = np_percentile results 75,
                               st_percentile_95 = np_percentile results 95,
                               st_win_rate = real count / real_of_int num_runs \<rparr>))"

fun choice_results_of :: "simulator \<Rightarrow> int \<Rightarrow> (int \<times> nat) list \<Rightarrow> (int \<times> real list) list
    \<Rightarrow> (int \<times> choice_stats) list \<Rightarrow> error + (int \<times> choice_stats) list" where
  "choice_results_of sim num_runs win_counts [] acc = Inr acc"
| "choice_results_of sim num_runs win_counts ((choice_id, results) # rest) acc =
     (case stats_of sim num_runs win_counts choice_id results of
        Inl e \<Rightarrow> Inl e
      | Inr st \<Rightarrow> choice_results_of sim num_runs win_counts rest (dict_set choice_id st acc))"

text \<open>
  \<^verbatim>\<open>sorted(xs, key=key, reverse=True)\<close>: CPython reverses the list, sorts it stably in
  ascending order and reverses the result, so equal keys keep their original order.
\<close>

definition sorted_reverse :: "('a \<Rightarrow> real) \<Rightarrow> 'a list \<Rightarrow> 'a list" where
  "sorted_reverse key xs = rev (sort_key key (rev xs))"

fun win_rates_of :: "simulator \<Rightarrow> int \<Rightarrow> (int \<times> nat) list \<Rightarrow> (string \<times> real) list
    \<Rightarrow> error + (string \<times> real) list" where
  "win_rates_of sim num_runs [] acc = Inr acc"
| "win_rates_of sim num_runs ((cid, count) # rest) acc =
     (case dict_index (choices sim) cid of
        Inl e \<Rightarrow> Inl e
      | Inr c \<Rightarrow>
          if num_runs = 0 then Inl ZeroDivisionError
          else win_rates_of sim num_runs rest
                 (dict_set (c_name c) (real count / real_of_int num_runs) acc))"

text \<open>
  \<^verbatim>\<open>run_simulation\<close>. The generator that \<^verbatim>\<open>np.random.default_rng(seed)\<close> returns
  is the parameter \<open>rng\<close>.
\<close>

definition run_simulation :: "simulator \<Rightarrow> int \<Rightarrow> Generator \<Rightarrow> error + report" where
  "run_simulation sim num_runs0 rng =
     (let num_runs = min num_runs0 MAX_SIMULATION_RUNS
      in case simulation_loop sim num_runs0 rng of
           (all_results, win_counts, rng') \<Rightarrow>
             (case choice_results_of sim num_runs win_counts all_results [] of
                Inl e \<Rightarrow> Inl e
              | Inr results \<Rightarrow>
                  (case win_rates_of sim num_runs win_counts [] of
                     Inl e \<Rightarrow> Inl e
                   | Inr rates \<Rightarrow>
                       Inr \<lparr> num_simulations = num_runs,
                             choice_results = results,
                             rankings = sorted_reverse st_mean (map snd results),
                             win_rates = rates \<rparr>)))"

subsection \<open>Sensitivity analysis\<close>

text \<open>
  \<^verbatim>\<open>np.linspace(start, stop, num)\<close>: \<open>num\<close> evenly spaced values from \<open>start\<close> to
  \<open>stop\<close> inclusive; a negative \<open>num\<close> raises \<^verbatim>\<open>ValueError\<close>.
\<close>

definition linspace :: "real \<Rightarrow> real \<Rightarrow> int \<Rightarrow> error + real list" where
  "linspace start stop num =
     (if num < 0 then Inl ValueError
      else if num = 1 then Inr [start]
      else Inr (map (\<lambda>i. start + real i * ((stop - start) / real_of_int (num - 1)))
                  [0 ..< nat num]))"

record sensitivity_entry =
  e_multiplier :: real
  e_scores :: "(string \<times> real) list"
  e_winner :: string

record sensitivity_report =
  r_factor_id :: int
  r_factor_name :: string
  r_analysis :: "sensitivity_entry list"

text \<open>
  The loop of \<^verbatim>\<open>sensitivity_analysis\<close> over the remaining multipliers. The simulator
  is threaded through, since every iteration assigns to \<^verbatim>\<open>self.normalized_weights\<close>;
  an exception leaves the assignments made so far in place.
\<close>

fun sensitivity_loop :: "simulator \<Rightarrow> int \<Rightarrow> real \<Rightarrow> real list \<Rightarrow> sensitivity_entry list
    \<Rightarrow> (error + sensitivity_entry list) \<times> simulator" where
  "sensitivity_loop sim factor_id original_weight [] results = (Inr results, sim)"
| "sensitivity_loop sim factor_id original_weight (multiplier # rest) results =
     (let test_weight = original_weight * multiplier
      in case dict_index (normalized_weights sim) factor_id of
           Inl e \<Rightarrow> (Inl e, sim)
         | Inr old_weight \<Rightarrow>
             (let modified = dict_set factor_id test_weight (normalized_weights sim);
                  total = sum_list (map snd modified)
              in if total = 0
                 then (Inl NonFinite, sim\<lparr>normalized_weights := modified\<rparr>)
                 else
                   (let temp_normalized = map (\<lambda>(k, v). (k, v / total)) modified;
                        sim' = sim\<lparr>normalized_weights := temp_normalized\<rparr>;
                        scores = dict_comp (\<lambda>(cid, c). c_name c)
                                   (\<lambda>(cid, c). calculate_weighted_score sim' cid)
                                   (choices sim')
                    in case py_max scores of
                         None \<Rightarrow> (Inl ValueError, sim')
                       | Some winner \<Rightarrow>
                           sensitivity_loop
                             (sim'\<lparr>normalized_weights :=
                                     dict_set factor_id old_weight temp_normalized\<rparr>)
                             factor_id original_weight rest
                             (results @ [\<lparr> e_multiplier = multiplier,
                                            e_scores = scores,
                                            e_winner = winner \<rparr>]))))"

text \<open>
  \<^verbatim>\<open>sensitivity_analysis\<close>: the result or the exception, and the simulator as the
  call leaves it.
\<close>

definition sensitivity_analysis :: "simulator \<Rightarrow> int \<Rightarrow> real \<times> real \<Rightarrow> int
    \<Rightarrow> (error + sensitivity_report) \<times> simulator" where
  "sensitivity_analysis sim factor_id weight_range steps =
     (let original_weight = (case dict_get (normalized_weights sim) factor_id of
                               None \<Rightarrow> 1 | Some w \<Rightarrow> w)
      in case linspace (fst weight_range) (snd weight_range) steps of
           Inl e \<Rightarrow> (Inl e, sim)
         | Inr multipliers \<Rightarrow>
             (case sensitivity_loop sim factor_id original_weight multipliers [] of
                (Inl e, sim') \<Rightarrow> (Inl e, sim')
              | (Inr results, sim') \<Rightarrow>
                  (case dict_index (factors sim') factor_id of
                     Inl e \<Rightarrow> (Inl e, sim')
                   | Inr f \<Rightarrow>
                       (Inr \<lparr> r_factor_id = factor_id,
                              r_factor_name = f_name f,
                              r_analysis = results \<rparr>, sim'))))"

subsection \<open>The score found for a pair\<close>

text \<open>
  Both totals read the organised scores only through the nested lookup
  \<^verbatim>\<open>self.scores[choice_id][factor_id]\<close>, guarded by the two membership tests.
\<close>

definition score_at :: "(int \<times> (int \<times> Score) list) list \<Rightarrow> int \<Rightarrow> int \<Rightarrow> Score option" where
  "score_at organized c f =
     (case dict_get organized c of None \<Rightarrow> None | Some row \<Rightarrow> dict_get row f)"

subsection \<open>Example decisions\<close>

definition rng5 :: Generator where
  "rng5 = \<lparr> variates = (\<lambda>n. 5), consumed = 0 \<rparr>"

definition choice_a :: Choice where
  "choice_a = \<lparr> c_id = 1, c_name = ''A'', c_description = None \<rparr>"

definition choice_b :: Choice where
  "choice_b = \<lparr> c_id = 2, c_name = ''B'', c_description = None \<rparr>"

definition factor_of :: "int \<Rightarrow> real \<Rightarrow> Factor" where
  "factor_of i w = \<lparr> f_id = i, f_name = ''factor'', f_weight = w, f_description = None \<rparr>"

definition score_of :: "int \<Rightarrow> int \<Rightarrow> real \<Rightarrow> real \<Rightarrow> Score" where
  "score_of c f x u = \<lparr> s_choice_id = c, s_factor_id = f, s_score = x, s_uncertainty = u \<rparr>"

definition two_choices :: simulator where
  "two_choices = DecisionSimulator [choice_a, choice_b] [factor_of 1 1]
                   [score_of 1 1 8 0, score_of 2 1 5 0]"

definition tied_choices :: simulator where
  "tied_choices = DecisionSimulator [choice_b, choice_a] [factor_of 1 1]
                    [score_of 1 1 5 0, score_of 2 1 5 0]"

definition two_factors :: simulator where
  "two_factors = DecisionSimulator [choice_a] [factor_of 1 1, factor_of 2 1] [score_of 1 1 10 0]"

section \<open>Properties\<close>

text \<open>The defining equations needed to evaluate the model on a concrete decision.\<close>

lemmas model_defs = DecisionSimulator_def normalize_weights_def dict_comp_def
  organize_scores_def organize_step_def dict_get_def dict_index_def
  calculate_weighted_score_def simulate_once_def sample_score_def normal_def
  choice_a_def choice_b_def factor_of_def score_of_def rng5_def

lemmas run_defs = run_simulation_def simulation_loop_def MAX_SIMULATION_RUNS_def
  simulation_round_def simulate_choices_def py_max_def stats_of_def sorted_reverse_def

subsection \<open>Dictionaries\<close>

lemma map_of_dict_set: "map_of (dict_set k v d) = (map_of d)(k \<mapsto> v)"
  by (induction d) auto

lemma dict_get_dict_set: "dict_get (dict_set k v d) k' = (if k' = k then Some v else dict_get d k')"
  by (simp add: dict_get_def map_of_dict_set)

lemma keys_dict_set:
  "map fst (dict_set k v d) = (if k \<in> fst ` set d then map fst d else map fst d @ [k])"
  by (induction d) auto

lemma distinct_dict_set: "distinct (map fst d) \<Longrightarrow> distinct (map fst (dict_set k v d))"
  by (induction d) (auto simp: keys_dict_set image_iff)

lemma set_keys_dict_set: "fst ` set (dict_set k v d) = insert k (fst ` set d)"
  by (induction d) auto

lemma find_app:
  "find P (xs @ ys) = (case find P xs of None \<Rightarrow> find P ys | Some x \<Rightarrow> Some x)"
  by (induction xs) auto

lemma dict_get_Nil: "dict_get [] k = None"
  by (simp add: dict_get_def)

lemma dict_get_fold_set:
  "dict_get (fold (\<lambda>x d. dict_set (key x) (val x) d) xs d0) k =
     (case find (\<lambda>x. key x = k) (rev xs) of
        None \<Rightarrow> dict_get d0 k
      | Some x \<Rightarrow> Some (val x))"
proof (induction xs arbitrary: d0)
  case Nil
  show ?case by simp
next
  case (Cons x xs)
  show ?case
    by (simp add: Cons.IH dict_get_dict_set find_app split: option.splits)
qed

lemma dict_get_dict_comp:
  "dict_get (dict_comp key val xs) k =
     map_option val (find (\<lambda>x. key x = k) (rev xs))"
  by (simp add: dict_comp_def dict_get_fold_set dict_get_Nil split: option.splits)

lemma find_rev_distinct:
  assumes "distinct (map key xs)" and "x \<in> set xs"
  shows "find (\<lambda>y. key y = key x) (rev xs) = Some x"
proof -
  from assms have "\<And>y. y \<in> set xs \<Longrightarrow> key y = key x \<Longrightarrow> y = x"
    by (meson distinct_map inj_onD)
  with assms(2) show ?thesis
    by (induction xs rule: rev_induct) (auto split: if_splits)
qed

subsection \<open>Weight normalisation\<close>

lemma dict_comp_Nil: "dict_comp key val [] = []"
  by (simp add: dict_comp_def)

text \<open>
  Claim C7. With \<open>T\<close> the sum of the raw weights: an empty factor list gives the empty
  table; when \<open>T > 0\<close> the table holds \<open>weight / T\<close> for every factor; when \<open>T = 0\<close>
  and there are \<open>n > 0\<close> factors the table holds \<open>1 / n\<close> for every factor. Factor ids
  identify factors (they are distinct): the table has one entry per id.
\<close>

theorem normalized_weights_contract:
  "normalized_weights (DecisionSimulator cs [] ss) = [] \<and>
   (distinct (map f_id fs) \<longrightarrow> sum_list (map f_weight fs) > 0 \<longrightarrow>
      (\<forall>f \<in> set fs. dict_get (normalized_weights (DecisionSimulator cs fs ss)) (f_id f)
                     = Some (f_weight f / sum_list (map f_weight fs)))) \<and>
   (fs \<noteq> [] \<longrightarrow> sum_list (map f_weight fs) = 0 \<longrightarrow>
      (\<forall>f \<in> set fs. dict_get (normalized_weights (DecisionSimulator cs fs ss)) (f_id f)
                     = Some (1 / real (length fs))))"
proof (intro conjI impI ballI)
  show "normalized_weights (DecisionSimulator cs [] ss) = []"
    by (simp add: DecisionSimulator_def normalize_weights_def dict_comp_Nil)
next
  fix f
  assume d: "distinct (map f_id fs)" and "sum_list (map f_weight fs) > 0" and f: "f \<in> set fs"
  then show "dict_get (normalized_weights (DecisionSimulator cs fs ss)) (f_id f)
               = Some (f_weight f / sum_list (map f_weight fs))"
    by (simp add: DecisionSimulator_def normalize_weights_def dict_get_dict_comp
        find_rev_distinct [OF d f])
next
  fix f
  assume "fs \<noteq> []" and "sum_list (map f_weight fs) = 0" and f: "f \<in> set fs"
  then obtain g where "find (\<lambda>x. f_id x = f_id f) (rev fs) = Some g"
    by (cases "find (\<lambda>x. f_id x = f_id f) (rev fs)") (auto simp: find_None_iff)
  with \<open>sum_list (map f_weight fs) = 0\<close>
  show "dict_get (normalized_weights (DecisionSimulator cs fs ss)) (f_id f)
          = Some (1 / real (length fs))"
    by (simp add: DecisionSimulator_def normalize_weights_def dict_get_dict_comp)
qed

theorem normalized_weights_contract_witness:
  "normalized_weights (DecisionSimulator [] [] []) = [] \<and>
   distinct (map f_id [factor_of 1 1, factor_of 2 3]) \<and>
   sum_list (map f_weight [factor_of 1 1, factor_of 2 3]) = 4 \<and>
   factor_of 2 3 \<in> set [factor_of 1 1, factor_of 2 3] \<and>
   dict_get (normalized_weights (DecisionSimulator [] [factor_of 1 1, factor_of 2 3] [])) 2
     = Some (3 / 4) \<and>
   [factor_of 1 0, factor_of 2 0] \<noteq> [] \<and>
   sum_list (map f_weight [factor_of 1 0, factor_of 2 0]) = 0 \<and>
   factor_of 1 0 \<in> set [factor_of 1 0, factor_of 2 0] \<and>
   dict_get (normalized_weights (DecisionSimulator [] [factor_of 1 0, factor_of 2 0] [])) 1
     = Some (1 / 2)"
  using normalized_weights_contract [of "[]" "[]" "[factor_of 1 1, factor_of 2 3]"]
    normalized_weights_contract [of "[]" "[]" "[factor_of 1 0, factor_of 2 0]"]
  by (simp add: factor_of_def)

subsection \<open>The sampling step\<close>

text \<open>
  Claim C8. One sampling step returns the raw score unchanged when the uncertainty is 0;
  when the uncertainty is positive it returns the draw \<open>normal rng score uncertainty\<close>
  clamped into \<open>[0, 10]\<close>; so the sampled value lies in \<open>[0, 10]\<close> whenever the raw
  score does, whatever the uncertainty.
\<close>

theorem sample_score_contract:
  "(s_uncertainty s = 0 \<longrightarrow> sample_score s rng = (s_score s, rng)) \<and>
   (s_uncertainty s > 0 \<longrightarrow>
      sample_score s rng =
        (max 0 (min 10 (fst (normal rng (s_score s) (s_uncertainty s)))),
         snd (normal rng (s_score s) (s_uncertainty s))) \<and>
      0 \<le> fst (sample_score s rng) \<and> fst (sample_score s rng) \<le> 10) \<and>
   (0 \<le> s_score s \<and> s_score s \<le> 10 \<longrightarrow>
      0 \<le> fst (sample_score s rng) \<and> fst (sample_score s rng) \<le> 10)"
  by (simp add: sample_score_def split: prod.splits)

theorem sample_score_contract_witness:
  "s_uncertainty (score_of 1 1 7 0) = 0 \<and>
   sample_score (score_of 1 1 7 0) rng5 = (7, rng5) \<and>
   s_uncertainty (score_of 1 1 7 2) > 0 \<and>
   sample_score (score_of 1 1 7 2) rng5 = (10, rng5\<lparr>consumed := 1\<rparr>) \<and>
   0 \<le> s_score (score_of 1 1 7 2) \<and> s_score (score_of 1 1 7 2) \<le> 10 \<and>
   0 \<le> fst (sample_score (score_of 1 1 7 2) rng5) \<and>
   fst (sample_score (score_of 1 1 7 2) rng5) \<le> 10"
  using sample_score_contract [of "score_of 1 1 7 0" rng5]
    sample_score_contract [of "score_of 1 1 7 2" rng5]
  by (simp add: score_of_def normal_def rng5_def)

text \<open>
  Against claim C3 as stated: a Score with uncertainty \<open>-1\<close> is sampled without any
  error, as its raw score 7, and a simulation over it completes with mean 7.
\<close>

theorem negative_uncertainty_counterexample:
  "s_uncertainty (score_of 1 1 7 (- 1)) < 0 \<and>
   sample_score (score_of 1 1 7 (- 1)) rng5 = (7, rng5) \<and>
   map_sum (\<lambda>e. e) (\<lambda>r. map st_mean (rankings r))
     (run_simulation (DecisionSimulator [choice_a] [factor_of 1 1] [score_of 1 1 7 (- 1)]) 2 rng5)
     = Inr [7]"
  by (simp add: model_defs run_defs np_mean_def numeral_2_eq_2)

text \<open>
  Claim C3, as the code has it. A negative uncertainty is not rejected: the test
  \<^verbatim>\<open>uncertainty > 0\<close> fails, so the step returns the raw score unchanged and consumes
  no variate, exactly as for uncertainty 0.
\<close>

theorem negative_uncertainty_deterministic:
  "s_uncertainty s < 0 \<Longrightarrow> sample_score s rng = (s_score s, rng)"
  by (simp add: sample_score_def)

theorem negative_uncertainty_deterministic_witness:
  "s_uncertainty (score_of 1 1 7 (- 1)) < 0 \<and>
   sample_score (score_of 1 1 7 (- 1)) rng5 = (7, rng5)"
  using negative_uncertainty_deterministic [of "score_of 1 1 7 (- 1)" rng5]
  by (simp add: score_of_def)

subsection \<open>Scores for unknown factors\<close>

lemma score_at_organize_step:
  "score_at (organize_step s organized) c f =
     (if c = s_choice_id s \<and> f = s_factor_id s then Some s else score_at organized c f)"
  by (auto simp: score_at_def organize_step_def dict_get_dict_set dict_get_Nil Let_def
      split: option.splits)

lemma score_at_fold_organize:
  "score_at (fold organize_step ss organized) c f =
     (case find (\<lambda>s. s_choice_id s = c \<and> s_factor_id s = f) (rev ss) of
        None \<Rightarrow> score_at organized c f
      | Some s \<Rightarrow> Some s)"
proof (induction ss arbitrary: organized)
  case Nil
  show ?case by simp
next
  case (Cons s ss)
  show ?case
    by (simp add: Cons.IH score_at_organize_step find_app split: option.splits)
qed

lemma score_at_ignores:
  assumes "f \<noteq> s_factor_id s"
  shows "score_at (organize_scores (xs @ s # ys)) c f = score_at (organize_scores (xs @ ys)) c f"
  using assms
  by (simp add: organize_scores_def score_at_fold_organize score_at_organize_step
      split: option.splits)

lemma fold_skip:
  "fold (\<lambda>(factor_id, weight) total. total) ws (a::'a) = a"
  by (induction ws) auto

lemma fold_skip_id:
  "fold (\<lambda>(factor_id, weight). id) ws a = a"
  by (induction ws) (auto split: prod.splits)

lemma calculate_weighted_score_alt:
  "calculate_weighted_score sim c =
     fold (\<lambda>(factor_id, weight) total.
             case score_at (scores sim) c factor_id of
               None \<Rightarrow> total
             | Some score_obj \<Rightarrow> total + s_score score_obj * weight)
          (normalized_weights sim) 0"
  by (simp add: calculate_weighted_score_def score_at_def fold_skip split: option.splits)

lemma simulate_once_alt:
  "simulate_once sim c rng =
     fold (\<lambda>(factor_id, weight) (total, rng).
             case score_at (scores sim) c factor_id of
               None \<Rightarrow> (total, rng)
             | Some score_obj \<Rightarrow>
                 (case sample_score score_obj rng of
                    (sampled, rng') \<Rightarrow> (total + sampled * weight, rng')))
          (normalized_weights sim) (0, rng)"
  by (simp add: simulate_once_def score_at_def fold_skip_id split: option.splits)

lemma set_keys_fold_set:
  "fst ` set (fold (\<lambda>x d. dict_set (key x) (val x) d) xs d0) = key ` set xs \<union> fst ` set d0"
  by (induction xs arbitrary: d0) (auto simp: set_keys_dict_set)

lemma set_keys_dict_comp: "fst ` set (dict_comp key val xs) = key ` set xs"
  by (simp add: dict_comp_def set_keys_fold_set)

lemma keys_normalize_weights: "fst ` set (normalize_weights fs) = f_id ` set fs"
  by (simp add: normalize_weights_def set_keys_dict_comp Let_def)

text \<open>
  Claim C10. A Score whose factor id is not among the supplied factors contributes
  nothing: with it or without it in the score list (at any position), every choice has
  the same deterministic total and the same sampled total, and the generator is left in
  the same state. The Score is ignored, not rejected.
\<close>

theorem unknown_factor_score_ignored:
  assumes "s_factor_id s \<notin> f_id ` set fs"
  shows "calculate_weighted_score (DecisionSimulator cs fs (xs @ s # ys)) c
           = calculate_weighted_score (DecisionSimulator cs fs (xs @ ys)) c \<and>
         simulate_once (DecisionSimulator cs fs (xs @ s # ys)) c rng
           = simulate_once (DecisionSimulator cs fs (xs @ ys)) c rng"
proof -
  have eq: "score_at (organize_scores (xs @ s # ys)) c k
              = score_at (organize_scores (xs @ ys)) c k"
    if "(k, w) \<in> set (normalize_weights fs)" for k w
  proof -
    from that have "k \<in> f_id ` set fs"
      using keys_normalize_weights [of fs] by force
    with assms have "k \<noteq> s_factor_id s" by blast
    then show ?thesis by (rule score_at_ignores)
  qed
  have "calculate_weighted_score (DecisionSimulator cs fs (xs @ s # ys)) c
           = calculate_weighted_score (DecisionSimulator cs fs (xs @ ys)) c"
    unfolding calculate_weighted_score_alt
    by (rule fold_cong) (auto simp: DecisionSimulator_def eq)
  moreover have "simulate_once (DecisionSimulator cs fs (xs @ s # ys)) c rng
           = simulate_once (DecisionSimulator cs fs (xs @ ys)) c rng"
    unfolding simulate_once_alt
    by (rule fold_cong) (auto simp: DecisionSimulator_def eq)
  ultimately show ?thesis by simp
qed

theorem unknown_factor_score_ignored_witness:
  "s_factor_id (score_of 1 9 10 0) \<notin> f_id ` set [factor_of 1 1] \<and>
   calculate_weighted_score
     (DecisionSimulator [choice_a] [factor_of 1 1] [score_of 1 1 4 0, score_of 1 9 10 0]) 1 = 4 \<and>
   simulate_once
     (DecisionSimulator [choice_a] [factor_of 1 1] [score_of 1 1 4 0, score_of 1 9 10 0]) 1 rng5
     = (4, rng5)"
  using unknown_factor_score_ignored [of "score_of 1 9 10 0" "[factor_of 1 1]" "[choice_a]"
      "[score_of 1 1 4 0]" "[]" 1 rng5]
  by (simp add: model_defs)

subsection \<open>The simulation loop: keys and win counters\<close>

lemma keys_dict_map_entry: "map fst (dict_map_entry k f d) = map fst d"
  by (induction d) auto

lemma sum_dict_map_entry_Suc:
  "k \<in> fst ` set d \<Longrightarrow>
     sum_list (map snd (dict_map_entry k Suc d)) = Suc (sum_list (map snd d))"
  by (induction d) auto

lemma max_from_in: "max_from best ps \<in> insert (fst best) (fst ` set ps)"
  by (induction ps arbitrary: best) (auto split: if_splits)

lemma py_max_Nil: "py_max [] = None"
  by (simp add: py_max_def)

lemma py_max_in: "d \<noteq> [] \<Longrightarrow> \<exists>k. py_max d = Some k \<and> k \<in> fst ` set d"
proof (cases d)
  case Nil
  assume "d \<noteq> []"
  with Nil show ?thesis by simp
next
  case (Cons p ps)
  with max_from_in [of p ps] show ?thesis
    by (simp add: py_max_def)
qed

lemma simulate_choices_fold:
  "fold (\<lambda>choice_id (round_scores, all_results, rng).
            case simulate_once sim choice_id rng of
              (x, rng') \<Rightarrow>
                (dict_set choice_id x round_scores,
                 dict_map_entry choice_id (\<lambda>xs. xs @ [x]) all_results,
                 rng'))
        ks (rs, ar, g) = (rs', ar', g') \<Longrightarrow>
   fst ` set rs' = set ks \<union> fst ` set rs \<and> map fst ar' = map fst ar"
proof (induction ks arbitrary: rs ar g)
  case Nil
  then show ?case by simp
next
  case (Cons k ks)
  obtain x g1 where so: "simulate_once sim k g = (x, g1)"
    by (cases "simulate_once sim k g")
  from Cons.prems Cons.IH [of "dict_set k x rs" "dict_map_entry k (\<lambda>xs. xs @ [x]) ar" g1]
  show ?case
    by (simp add: so set_keys_dict_set keys_dict_map_entry)
qed

lemma simulate_choices_keys:
  assumes "simulate_choices sim ar g = (rs', ar', g')"
  shows "fst ` set rs' = fst ` set (choices sim)" and "map fst ar' = map fst ar"
  using simulate_choices_fold [OF assms [unfolded simulate_choices_def]] by simp_all

lemma simulation_round_counts:
  assumes "simulation_round sim (ar, wc, g) = (ar', wc', g')"
    and "fst ` set wc = fst ` set (choices sim)"
  shows "map fst wc' = map fst wc"
    and "map fst ar' = map fst ar"
    and "sum_list (map snd wc') =
           (if choices sim = [] then sum_list (map snd wc) else Suc (sum_list (map snd wc)))"
proof -
  obtain rs ar1 g1 where sc: "simulate_choices sim ar g = (rs, ar1, g1)"
    by (cases "simulate_choices sim ar g")
  note keys = simulate_choices_keys [OF sc]
  show "map fst wc' = map fst wc" and "map fst ar' = map fst ar"
    using assms(1) keys(2)
    by (auto simp: simulation_round_def sc keys_dict_map_entry split: option.splits)
  show "sum_list (map snd wc') =
           (if choices sim = [] then sum_list (map snd wc) else Suc (sum_list (map snd wc)))"
  proof (cases "choices sim = []")
    case True
    with keys(1) have "rs = []" by simp
    with assms(1) True show ?thesis
      by (simp add: simulation_round_def sc py_max_Nil)
  next
    case False
    with keys(1) have "rs \<noteq> []" by auto
    then obtain k where k: "py_max rs = Some k" "k \<in> fst ` set rs"
      using py_max_in by blast
    with keys(1) assms(2) have "k \<in> fst ` set wc" by simp
    then have "sum_list (map snd (dict_map_entry k Suc wc)) = Suc (sum_list (map snd wc))"
      by (rule sum_dict_map_entry_Suc)
    with assms(1) k(1) False show ?thesis
      by (simp add: simulation_round_def sc)
  qed
qed

lemma run_rounds_counts:
  assumes "run_rounds sim n (ar, wc, g) = (ar', wc', g')"
    and "fst ` set wc = fst ` set (choices sim)"
  shows "sum_list (map snd wc') =
           (if choices sim = [] then sum_list (map snd wc) else n + sum_list (map snd wc))"
  using assms
proof (induction n arbitrary: ar wc g)
  case 0
  then show ?case by simp
next
  case (Suc n)
  obtain ar1 wc1 g1 where r: "simulation_round sim (ar, wc, g) = (ar1, wc1, g1)"
    by (cases "simulation_round sim (ar, wc, g)")
  note step = simulation_round_counts [OF r Suc.prems(2)]
  from step(1) have "fst ` set wc1 = fst ` set wc"
    by (metis set_map)
  with Suc.prems(2) have inv: "fst ` set wc1 = fst ` set (choices sim)" by simp
  from Suc.prems(1) have "run_rounds sim n (ar1, wc1, g1) = (ar', wc', g')"
    by (simp add: r)
  from Suc.IH [OF this inv] step(3) show ?case by simp
qed

lemma values_dict_set: "snd ` set (dict_set k c d) \<subseteq> insert c (snd ` set d)"
  by (induction d) auto

lemma values_fold_const:
  "snd ` set (fold (\<lambda>x d. dict_set (key x) c d) xs d0) \<subseteq> insert c (snd ` set d0)"
proof (induction xs arbitrary: d0)
  case Nil
  show ?case by auto
next
  case (Cons x xs)
  have "snd ` set (fold (\<lambda>x d. dict_set (key x) c d) xs (dict_set (key x) c d0))
          \<subseteq> insert c (snd ` set (dict_set (key x) c d0))"
    by (rule Cons.IH)
  also have "\<dots> \<subseteq> insert c (snd ` set d0)"
    using values_dict_set [of "key x" c d0] by blast
  finally show ?case by simp
qed

lemma values_dict_comp_const: "p \<in> set (dict_comp key (\<lambda>_. c) xs) \<Longrightarrow> snd p = c"
  using values_fold_const [of key c xs "[]"] by (auto simp: dict_comp_def)

lemma sum_initial_counts: "sum_list (map snd (dict_comp key (\<lambda>_. 0::nat) xs)) = 0"
  by (auto simp: values_dict_comp_const)

lemma simulation_loop_counts:
  assumes "simulation_loop sim n rng = (ar, wc, rng')"
  shows "sum_list (map snd wc) =
           (if choices sim = [] then 0 else nat (min n MAX_SIMULATION_RUNS))"
proof -
  have "fst ` set (dict_comp (\<lambda>choice_id. choice_id) (\<lambda>_. 0::nat) (map fst (choices sim)))
          = fst ` set (choices sim)"
    by (simp add: set_keys_dict_comp)
  from run_rounds_counts [OF assms [unfolded simulation_loop_def] this]
  show ?thesis by (simp add: sum_initial_counts)
qed

lemma simulate_choices_no_choice:
  "choices sim = [] \<Longrightarrow> simulate_choices sim ar g = ([], ar, g)"
  by (simp add: simulate_choices_def)

lemma run_rounds_no_choice:
  "choices sim = [] \<Longrightarrow> run_rounds sim n st = st"
  by (induction n arbitrary: st)
     (auto simp: simulation_round_def simulate_choices_no_choice py_max_Nil split: prod.splits)

lemma simulation_loop_no_choice:
  "choices sim = [] \<Longrightarrow> simulation_loop sim n rng = ([], [], rng)"
  by (simp add: simulation_loop_def run_rounds_no_choice dict_comp_Nil)

lemma run_simulation_no_choice:
  "choices sim = [] \<Longrightarrow>
     run_simulation sim n rng =
       Inr \<lparr> num_simulations = min n MAX_SIMULATION_RUNS, choice_results = [],
             rankings = [], win_rates = [] \<rparr>"
  by (simp add: run_simulation_def simulation_loop_no_choice sorted_reverse_def)

lemma fold_set_const_head:
  "\<exists>ps'. fold (\<lambda>x d. dict_set (key x) c d) xs ((k, c) # ps) = (k, c) # ps'"
proof (induction xs arbitrary: ps)
  case Nil
  show ?case by simp
next
  case (Cons x xs)
  show ?case
    using Cons.IH [of ps] Cons.IH [of "dict_set (key x) c ps"] by auto
qed

lemma dict_comp_const_head:
  "\<exists>ps. dict_comp key (\<lambda>_. c) (x # xs) = (key x, c) # ps"
  using fold_set_const_head [of key c xs "key x" "[]"] by (simp add: dict_comp_def)

lemma run_simulation_no_round:
  assumes "choices sim \<noteq> []" and "n \<le> 0"
  shows "run_simulation sim n rng = Inl ValueError"
proof -
  from assms(1) obtain k c rest where ch: "choices sim = (k, c) # rest"
    by (cases "choices sim") auto
  obtain ps where ar: "dict_comp (\<lambda>choice_id. choice_id) (\<lambda>_. []::real list)
                          (map fst (choices sim)) = (k, []) # ps"
    using dict_comp_const_head [of "\<lambda>choice_id. choice_id" "[]::real list" k "map fst rest"]
    by (auto simp: ch)
  have "nat (min n MAX_SIMULATION_RUNS) = 0"
    using assms(2) by simp
  then have loop: "simulation_loop sim n rng =
      ((k, []) # ps, dict_comp (\<lambda>choice_id. choice_id) (\<lambda>_. 0) (map fst (choices sim)), rng)"
    by (simp add: simulation_loop_def ar)
  have "stats_of sim m wc k [] = Inl ValueError" for m wc
    by (simp add: stats_of_def dict_index_def dict_get_def ch)
  then show ?thesis
    by (simp add: run_simulation_def loop)
qed

lemma map_of_dict_map_entry:
  "map_of (dict_map_entry k f d) k' =
     (if k' = k then map_option f (map_of d k) else map_of d k')"
  by (induction d) auto

lemma simulate_choices_fold_grows:
  assumes "fold (\<lambda>choice_id (round_scores, all_results, rng).
            case simulate_once sim choice_id rng of
              (x, rng') \<Rightarrow>
                (dict_set choice_id x round_scores,
                 dict_map_entry choice_id (\<lambda>xs. xs @ [x]) all_results,
                 rng'))
        ks (rs, ar, g) = (rs', ar', g')"
    and "map_of ar k = Some xs"
  shows "\<exists>xs'. map_of ar' k = Some xs' \<and>
           length xs + (if k \<in> set ks then 1 else 0) \<le> length xs'"
  using assms
proof (induction ks arbitrary: rs ar g xs)
  case Nil
  then show ?case by simp
next
  case (Cons c ks)
  obtain x g1 where so: "simulate_once sim c g = (x, g1)"
    by (cases "simulate_once sim c g")
  let ?ar1 = "dict_map_entry c (\<lambda>xs. xs @ [x]) ar"
  have m: "map_of ?ar1 k = Some (if k = c then xs @ [x] else xs)"
    using Cons.prems(2) by (auto simp: map_of_dict_map_entry)
  from Cons.prems(1) have "fold (\<lambda>choice_id (round_scores, all_results, rng).
            case simulate_once sim choice_id rng of
              (x, rng') \<Rightarrow>
                (dict_set choice_id x round_scores,
                 dict_map_entry choice_id (\<lambda>xs. xs @ [x]) all_results,
                 rng'))
        ks (dict_set c x rs, ?ar1, g1) = (rs', ar', g')"
    by (simp add: so)
  from Cons.IH [OF this m] show ?case
    by (auto split: if_splits)
qed

lemma simulation_round_grows:
  assumes "simulation_round sim (ar, wc, g) = (ar', wc', g')"
    and "map_of ar k = Some xs" and "k \<in> fst ` set (choices sim)"
  shows "\<exists>xs'. map_of ar' k = Some xs' \<and> Suc (length xs) \<le> length xs'"
proof -
  obtain rs ar1 g1 where sc: "simulate_choices sim ar g = (rs, ar1, g1)"
    by (cases "simulate_choices sim ar g")
  from assms(1) have "ar' = ar1"
    by (auto simp: simulation_round_def sc split: option.splits)
  with simulate_choices_fold_grows [OF sc [unfolded simulate_choices_def] assms(2)] assms(3)
  show ?thesis by simp
qed

lemma run_rounds_grows:
  assumes "run_rounds sim n (ar, wc, g) = (ar', wc', g')"
    and "map_of ar k = Some xs" and "k \<in> fst ` set (choices sim)"
  shows "\<exists>xs'. map_of ar' k = Some xs' \<and> n + length xs \<le> length xs'"
  using assms
proof (induction n arbitrary: ar wc g xs)
  case 0
  then show ?case by simp
next
  case (Suc n)
  obtain ar1 wc1 g1 where r: "simulation_round sim (ar, wc, g) = (ar1, wc1, g1)"
    by (cases "simulation_round sim (ar, wc, g)")
  from simulation_round_grows [OF r Suc.prems(2,3)]
  obtain xs1 where x1: "map_of ar1 k = Some xs1" "Suc (length xs) \<le> length xs1"
    by blast
  from Suc.prems(1) have "run_rounds sim n (ar1, wc1, g1) = (ar', wc', g')"
    by (simp add: r)
  from Suc.IH [OF this x1(1) Suc.prems(3)] x1(2) show ?case
    by auto
qed

lemma run_rounds_keys:
  assumes "run_rounds sim n (ar, wc, g) = (ar', wc', g')"
    and "fst ` set wc = fst ` set (choices sim)"
  shows "map fst ar' = map fst ar \<and> map fst wc' = map fst wc"
  using assms
proof (induction n arbitrary: ar wc g)
  case 0
  then show ?case by simp
next
  case (Suc n)
  obtain ar1 wc1 g1 where r: "simulation_round sim (ar, wc, g) = (ar1, wc1, g1)"
    by (cases "simulation_round sim (ar, wc, g)")
  note step = simulation_round_counts [OF r Suc.prems(2)]
  from step(1) have "fst ` set wc1 = fst ` set wc"
    by (metis set_map)
  with Suc.prems(2) have inv: "fst ` set wc1 = fst ` set (choices sim)" by simp
  from Suc.prems(1) have "run_rounds sim n (ar1, wc1, g1) = (ar', wc', g')"
    by (simp add: r)
  from Suc.IH [OF this inv] step(1,2) show ?case by simp
qed

lemma distinct_fold_set:
  "distinct (map fst d0) \<Longrightarrow>
     distinct (map fst (fold (\<lambda>x d. dict_set (key x) (val x) d) xs d0))"
  by (induction xs arbitrary: d0) (auto simp: distinct_dict_set)

lemma distinct_dict_comp: "distinct (map fst (dict_comp key val xs))"
  by (simp add: dict_comp_def distinct_fold_set)

lemma choice_results_of_total:
  assumes "\<And>k res. (k, res) \<in> set xs \<Longrightarrow> \<exists>st. stats_of sim m wc k res = Inr st"
  shows "\<exists>crs. choice_results_of sim m wc xs acc = Inr crs"
  using assms
proof (induction xs arbitrary: acc)
  case Nil
  show ?case by simp
next
  case (Cons p xs)
  obtain k res where p: "p = (k, res)" by (cases p)
  from Cons.prems [of k res] obtain st where "stats_of sim m wc k res = Inr st"
    by (auto simp: p)
  moreover have "\<exists>crs. choice_results_of sim m wc xs (dict_set k st acc) = Inr crs"
    by (rule Cons.IH) (auto intro: Cons.prems)
  ultimately show ?case by (simp add: p)
qed

lemma win_rates_of_total:
  assumes "fst ` set xs \<subseteq> fst ` set (choices sim)" and "m \<noteq> 0"
  shows "\<exists>rates. win_rates_of sim m xs acc = Inr rates"
  using assms(1)
proof (induction xs arbitrary: acc)
  case Nil
  show ?case by simp
next
  case (Cons p xs)
  obtain k count where p: "p = (k, count)" by (cases p)
  with Cons.prems have "k \<in> fst ` set (choices sim)" by simp
  then obtain c where "dict_get (choices sim) k = Some c"
    by (cases "map_of (choices sim) k") (auto simp: dict_get_def map_of_eq_None_iff)
  moreover have "\<exists>rates. win_rates_of sim m xs acc' = Inr rates" for acc'
    using Cons.prems by (intro Cons.IH) auto
  ultimately show ?case
    using assms(2) by (simp add: p dict_index_def)
qed

lemma run_simulation_completes:
  assumes "choices sim \<noteq> []" and "1 \<le> n"
  shows "\<exists>r. run_simulation sim n rng = Inr r"
proof -
  let ?K = "map fst (choices sim)"
  let ?m = "min n MAX_SIMULATION_RUNS"
  let ?ar0 = "dict_comp (\<lambda>choice_id. choice_id) (\<lambda>_. []::real list) ?K"
  let ?wc0 = "dict_comp (\<lambda>choice_id. choice_id) (\<lambda>_. 0::nat) ?K"
  obtain ar wc g where loop: "simulation_loop sim n rng = (ar, wc, g)"
    by (cases "simulation_loop sim n rng")
  then have rr: "run_rounds sim (nat ?m) (?ar0, ?wc0, rng) = (ar, wc, g)"
    by (simp add: simulation_loop_def)
  have m: "1 \<le> ?m" using assms(2) by (simp add: MAX_SIMULATION_RUNS_def)
  have k0: "fst ` set ?wc0 = fst ` set (choices sim)" "fst ` set ?ar0 = fst ` set (choices sim)"
    by (simp_all add: set_keys_dict_comp)
  from run_rounds_keys [OF rr k0(1)]
  have keys: "map fst ar = map fst ?ar0" "map fst wc = map fst ?wc0" by simp_all
  then have kset: "fst ` set ar = fst ` set (choices sim)" "fst ` set wc = fst ` set (choices sim)"
    using k0 by (metis set_map)+
  have dist: "distinct (map fst ar)"
    by (simp add: keys distinct_dict_comp)
  have stats: "\<exists>st. stats_of sim ?m wc k res = Inr st" if "(k, res) \<in> set ar" for k res
  proof -
    from that kset have kin: "k \<in> fst ` set (choices sim)" by force
    then obtain c where c: "dict_get (choices sim) k = Some c"
      by (cases "map_of (choices sim) k") (auto simp: dict_get_def map_of_eq_None_iff)
    from kin kset obtain count where w: "dict_get wc k = Some count"
      by (cases "map_of wc k") (auto simp: dict_get_def map_of_eq_None_iff)
    from kin k0(2) have "k \<in> fst ` set ?ar0" by simp
    then obtain p where p: "p \<in> set ?ar0" "fst p = k" by (auto simp: image_iff)
    from p(1) have "snd p = []" by (rule values_dict_comp_const)
    with p(2) have "p = (k, [])" by (metis prod.collapse)
    with p(1) have "(k, []) \<in> set ?ar0" by simp
    with distinct_dict_comp have "map_of ?ar0 k = Some []"
      by (rule map_of_is_SomeI)
    from run_rounds_grows [OF rr this kin]
    obtain xs' where "map_of ar k = Some xs'" "nat ?m \<le> length xs'" by auto
    moreover from that dist have "map_of ar k = Some res" by simp
    ultimately have "res \<noteq> []" using m by auto
    then have "res \<noteq> []" .
    moreover from m have "?m \<noteq> 0" by linarith
    ultimately show ?thesis
      using c w by (simp add: stats_of_def dict_index_def)
  qed
  from choice_results_of_total [of ar sim ?m wc "[]", OF stats]
  obtain crs where crs: "choice_results_of sim ?m wc ar [] = Inr crs" by blast
  from m have "?m \<noteq> 0" by linarith
  with win_rates_of_total [of wc sim ?m "[]"] kset(2)
  obtain rates where "win_rates_of sim ?m wc [] = Inr rates" by auto
  with crs show ?thesis
    by (simp add: run_simulation_def loop)
qed

subsection \<open>When a simulation fails\<close>

text \<open>
  Against claim C1 as stated: with no choice at all and five runs requested,
  \<^verbatim>\<open>run_simulation\<close> returns a report (an empty one), not an error.
\<close>

theorem empty_choices_counterexample:
  "run_simulation (DecisionSimulator [] [factor_of 1 1] []) 5 rng5 =
     Inr \<lparr> num_simulations = 5, choice_results = [], rankings = [], win_rates = [] \<rparr>"
  by (simp add: model_defs run_defs eval_nat_numeral)

text \<open>
  Claim C1, as the code has it. An empty choice list is not an error: every round skips
  the winner (\<^verbatim>\<open>if round_scores:\<close>) and the report is empty, with
  \<open>num_simulations\<close> the clamped run count. With at least one choice and
  \<open>num_runs \<le> 0\<close> no round runs, the first sample series is empty and its minimum
  raises \<^verbatim>\<open>ValueError\<close>. (With at least one choice and \<open>num_runs \<ge> 1\<close> the call
  returns a report: lemma \<open>run_simulation_completes\<close>.)
\<close>

theorem run_simulation_failure:
  "(cs = [] \<longrightarrow>
      run_simulation (DecisionSimulator cs fs ss) n rng =
        Inr \<lparr> num_simulations = min n MAX_SIMULATION_RUNS, choice_results = [],
              rankings = [], win_rates = [] \<rparr>) \<and>
   (cs \<noteq> [] \<longrightarrow> n \<le> 0 \<longrightarrow>
      run_simulation (DecisionSimulator cs fs ss) n rng = Inl ValueError)"
proof (intro conjI impI)
  assume "cs = []"
  then have "choices (DecisionSimulator cs fs ss) = []"
    by (simp add: DecisionSimulator_def dict_comp_Nil)
  then show "run_simulation (DecisionSimulator cs fs ss) n rng =
        Inr \<lparr> num_simulations = min n MAX_SIMULATION_RUNS, choice_results = [],
              rankings = [], win_rates = [] \<rparr>"
    by (rule run_simulation_no_choice)
next
  assume "cs \<noteq> []" and n: "n \<le> 0"
  then have "c_id ` set cs \<noteq> {}" by simp
  then have "fst ` set (choices (DecisionSimulator cs fs ss)) \<noteq> {}"
    by (simp add: DecisionSimulator_def set_keys_dict_comp)
  then have "choices (DecisionSimulator cs fs ss) \<noteq> []" by auto
  then show "run_simulation (DecisionSimulator cs fs ss) n rng = Inl ValueError"
    using n by (rule run_simulation_no_round)
qed

theorem run_simulation_failure_witness:
  "run_simulation (DecisionSimulator [] [factor_of 1 1] []) 5 rng5 =
     Inr \<lparr> num_simulations = 5, choice_results = [], rankings = [], win_rates = [] \<rparr> \<and>
   [choice_a] \<noteq> [] \<and> (0::int) \<le> 0 \<and>
   run_simulation (DecisionSimulator [choice_a] [factor_of 1 1] [score_of 1 1 7 0]) 0 rng5
     = Inl ValueError"
  using run_simulation_failure [of "[]" "[factor_of 1 1]" "[]" 5 rng5]
    run_simulation_failure [of "[choice_a]" "[factor_of 1 1]" "[score_of 1 1 7 0]" 0 rng5]
  by (simp add: MAX_SIMULATION_RUNS_def)

subsection \<open>Win counters\<close>

text \<open>
  Against claim C9 as stated: the call with no choice and three runs completes, and its
  win counters (there are none) sum to 0, not to 3.
\<close>

theorem win_counts_sum_counterexample:
  "run_simulation (DecisionSimulator [] [factor_of 1 1] []) 3 rng5 =
     Inr \<lparr> num_simulations = 3, choice_results = [], rankings = [], win_rates = [] \<rparr> \<and>
   simulation_loop (DecisionSimulator [] [factor_of 1 1] []) 3 rng5 = ([], [], rng5) \<and>
   sum_list (map snd ([]::(int \<times> nat) list)) \<noteq> 3"
  by (simp add: model_defs run_defs eval_nat_numeral)

text \<open>
  Claim C9, as the code has it. For a completed call the report's \<open>num_simulations\<close>
  is the clamped run count \<open>min num_runs MAX_SIMULATION_RUNS\<close>; when there is at least
  one choice the win counters sum to exactly that number (each round increments exactly
  one counter), and when there is no choice they sum to 0.
\<close>

theorem win_counts_sum:
  assumes "run_simulation sim n rng = Inr r"
    and "simulation_loop sim n rng = (ar, wc, rng')"
  shows "num_simulations r = min n MAX_SIMULATION_RUNS \<and>
         int (sum_list (map snd wc)) = (if choices sim = [] then 0 else num_simulations r)"
proof -
  have ns: "num_simulations r = min n MAX_SIMULATION_RUNS"
    using assms(1)
    by (auto simp: run_simulation_def Let_def split: prod.splits sum.splits)
  have "choices sim \<noteq> [] \<Longrightarrow> 0 < n"
    using run_simulation_no_round [of sim n rng] assms(1) by force
  then have "choices sim \<noteq> [] \<Longrightarrow> int (nat (min n MAX_SIMULATION_RUNS)) = min n MAX_SIMULATION_RUNS"
    by (simp add: MAX_SIMULATION_RUNS_def)
  with simulation_loop_counts [OF assms(2)] ns show ?thesis
    by simp
qed

theorem win_counts_sum_witness:
  "simulation_loop two_choices 2 rng5 = ([(1, [8, 8]), (2, [5, 5])], [(1, 2), (2, 0)], rng5) \<and>
   map_sum (\<lambda>e. e) num_simulations (run_simulation two_choices 2 rng5) = Inr 2 \<and>
   choices two_choices \<noteq> [] \<and>
   int (sum_list (map snd [(1::int, 2::nat), (2, 0)])) = 2"
proof -
  have loop: "simulation_loop two_choices 2 rng5
                = ([(1, [8, 8]), (2, [5, 5])], [(1, 2), (2, 0)], rng5)"
    by (simp add: two_choices_def model_defs run_defs numeral_2_eq_2)
  have ne: "choices two_choices \<noteq> []"
    by (simp add: two_choices_def model_defs)
  then obtain r where r: "run_simulation two_choices 2 rng5 = Inr r"
    using run_simulation_completes [of two_choices 2 rng5] by auto
  from win_counts_sum [OF r loop] r loop ne show ?thesis
    by (simp add: MAX_SIMULATION_RUNS_def)
qed

subsection \<open>Ties\<close>

lemma max_from_first:
  "(max_from best ps = fst best \<and> (\<forall>p \<in> set ps. snd p \<le> snd best)) \<or>
   (\<exists>pre v post. ps = pre @ (max_from best ps, v) # post \<and> snd best < v \<and>
      (\<forall>p \<in> set pre. snd p < v) \<and> (\<forall>p \<in> set post. snd p \<le> v))"
proof (induction ps arbitrary: best)
  case Nil
  show ?case by simp
next
  case (Cons p ps)
  show ?case
  proof (cases "snd p > snd best")
    case True
    from Cons.IH [of p] show ?thesis
    proof
      assume a: "max_from p ps = fst p \<and> (\<forall>q \<in> set ps. snd q \<le> snd p)"
      have "p # ps = [] @ (max_from best (p # ps), snd p) # ps \<and> snd best < snd p \<and>
              (\<forall>q \<in> set []. snd q < snd p) \<and> (\<forall>q \<in> set ps. snd q \<le> snd p)"
        using True a by simp
      then have "\<exists>pre v post. p # ps = pre @ (max_from best (p # ps), v) # post \<and>
                   snd best < v \<and> (\<forall>q \<in> set pre. snd q < v) \<and>
                   (\<forall>q \<in> set post. snd q \<le> v)"
        by (intro exI)
      then show ?thesis by (rule disjI2)
    next
      assume "\<exists>pre v post. ps = pre @ (max_from p ps, v) # post \<and> snd p < v \<and>
                (\<forall>q \<in> set pre. snd q < v) \<and> (\<forall>q \<in> set post. snd q \<le> v)"
      then obtain pre v post where b: "ps = pre @ (max_from p ps, v) # post" "snd p < v"
          "\<forall>q \<in> set pre. snd q < v" "\<forall>q \<in> set post. snd q \<le> v"
        by blast
      have "p # ps = (p # pre) @ (max_from best (p # ps), v) # post \<and> snd best < v \<and>
              (\<forall>q \<in> set (p # pre). snd q < v) \<and> (\<forall>q \<in> set post. snd q \<le> v)"
        using True b by simp
      then have "\<exists>pre v post. p # ps = pre @ (max_from best (p # ps), v) # post \<and>
                   snd best < v \<and> (\<forall>q \<in> set pre. snd q < v) \<and>
                   (\<forall>q \<in> set post. snd q \<le> v)"
        by (intro exI)
      then show ?thesis by (rule disjI2)
    qed
  next
    case False
    from Cons.IH [of best] show ?thesis
    proof
      assume a: "max_from best ps = fst best \<and> (\<forall>q \<in> set ps. snd q \<le> snd best)"
      with False show ?thesis by simp
    next
      assume "\<exists>pre v post. ps = pre @ (max_from best ps, v) # post \<and> snd best < v \<and>
                (\<forall>q \<in> set pre. snd q < v) \<and> (\<forall>q \<in> set post. snd q \<le> v)"
      then obtain pre v post where b: "ps = pre @ (max_from best ps, v) # post" "snd best < v"
          "\<forall>q \<in> set pre. snd q < v" "\<forall>q \<in> set post. snd q \<le> v"
        by blast
      have "p # ps = (p # pre) @ (max_from best (p # ps), v) # post \<and> snd best < v \<and>
              (\<forall>q \<in> set (p # pre). snd q < v) \<and> (\<forall>q \<in> set post. snd q \<le> v)"
        using False b by simp
      then have "\<exists>pre v post. p # ps = pre @ (max_from best (p # ps), v) # post \<and>
                   snd best < v \<and> (\<forall>q \<in> set pre. snd q < v) \<and>
                   (\<forall>q \<in> set post. snd q \<le> v)"
        by (intro exI)
      then show ?thesis by (rule disjI2)
    qed
  qed
qed

lemma py_max_first:
  assumes "py_max d = Some k"
  shows "\<exists>pre v post. d = pre @ (k, v) # post \<and>
           (\<forall>p \<in> set pre. snd p < v) \<and> (\<forall>p \<in> set post. snd p \<le> v)"
proof (cases d)
  case Nil
  with assms show ?thesis by (simp add: py_max_def)
next
  case (Cons b ps)
  with assms have k: "k = max_from b ps" by (simp add: py_max_def)
  from max_from_first [of b ps] show ?thesis
  proof
    assume a: "max_from b ps = fst b \<and> (\<forall>p \<in> set ps. snd p \<le> snd b)"
    then have "d = [] @ (k, snd b) # ps \<and>
        (\<forall>p \<in> set []. snd p < snd b) \<and> (\<forall>p \<in> set ps. snd p \<le> snd b)"
      using Cons k by simp
    then show ?thesis by (intro exI)
  next
    assume "\<exists>pre v post. ps = pre @ (max_from b ps, v) # post \<and> snd b < v \<and>
              (\<forall>q \<in> set pre. snd q < v) \<and> (\<forall>q \<in> set post. snd q \<le> v)"
    then obtain pre v post where c: "ps = pre @ (max_from b ps, v) # post" "snd b < v"
        "\<forall>q \<in> set pre. snd q < v" "\<forall>q \<in> set post. snd q \<le> v"
      by blast
    have "d = (b # pre) @ (k, v) # post \<and>
        (\<forall>q \<in> set (b # pre). snd q < v) \<and> (\<forall>q \<in> set post. snd q \<le> v)"
      using Cons k c by simp
    then show ?thesis by (intro exI)
  qed
qed

lemma dict_set_new: "k \<notin> fst ` set d \<Longrightarrow> dict_set k v d = d @ [(k, v)]"
  by (induction d) auto

lemma fold_set_distinct:
  "distinct (map fst d0 @ map key xs) \<Longrightarrow>
     fold (\<lambda>x d. dict_set (key x) (val x) d) xs d0 = d0 @ map (\<lambda>x. (key x, val x)) xs"
proof (induction xs arbitrary: d0)
  case Nil
  show ?case by simp
next
  case (Cons x xs)
  from Cons.prems have new: "key x \<notin> fst ` set d0" by auto
  from Cons.prems have "distinct (map fst (d0 @ [(key x, val x)]) @ map key xs)" by auto
  from Cons.IH [OF this] show ?case
    by (simp add: dict_set_new [OF new])
qed

lemma dict_comp_distinct:
  "distinct (map key xs) \<Longrightarrow> dict_comp key val xs = map (\<lambda>x. (key x, val x)) xs"
  using fold_set_distinct [of "[]" key xs val] by (simp add: dict_comp_def)

lemma simulate_choices_fold_order:
  assumes "fold (\<lambda>choice_id (round_scores, all_results, rng).
            case simulate_once sim choice_id rng of
              (x, rng') \<Rightarrow>
                (dict_set choice_id x round_scores,
                 dict_map_entry choice_id (\<lambda>xs. xs @ [x]) all_results,
                 rng'))
        ks (rs, ar, g) = (rs', ar', g')"
    and "distinct (map fst rs @ ks)"
  shows "map fst rs' = map fst rs @ ks"
  using assms
proof (induction ks arbitrary: rs ar g)
  case Nil
  then show ?case by simp
next
  case (Cons k ks)
  obtain x g1 where so: "simulate_once sim k g = (x, g1)"
    by (cases "simulate_once sim k g")
  from Cons.prems(2) have new: "k \<notin> fst ` set rs" by auto
  from Cons.prems(2) have d: "distinct (map fst (dict_set k x rs) @ ks)"
    by (auto simp: dict_set_new [OF new])
  from Cons.prems(1) have "fold (\<lambda>choice_id (round_scores, all_results, rng).
            case simulate_once sim choice_id rng of
              (x, rng') \<Rightarrow>
                (dict_set choice_id x round_scores,
                 dict_map_entry choice_id (\<lambda>xs. xs @ [x]) all_results,
                 rng'))
        ks (dict_set k x rs, dict_map_entry k (\<lambda>xs. xs @ [x]) ar, g1) = (rs', ar', g')"
    by (simp add: so)
  from Cons.IH [OF this d] show ?case
    by (simp add: dict_set_new [OF new])
qed

lemma simulate_choices_order:
  assumes "simulate_choices sim ar g = (rs, ar1, g1)" and "distinct (map fst (choices sim))"
  shows "map fst rs = map fst (choices sim)"
  using simulate_choices_fold_order [OF assms(1) [unfolded simulate_choices_def]] assms(2)
  by simp

lemma choice_results_of_order:
  assumes "choice_results_of sim m wc xs acc = Inr crs"
    and "distinct (map fst acc @ map fst xs)"
  shows "\<exists>sts. crs = acc @ sts \<and> map fst sts = map fst xs \<and>
           map (\<lambda>p. st_choice_id (snd p)) sts = map fst xs"
  using assms
proof (induction xs arbitrary: acc)
  case Nil
  then show ?case by simp
next
  case (Cons p xs)
  obtain k res where p: "p = (k, res)" by (cases p)
  from Cons.prems(1) obtain st where st: "stats_of sim m wc k res = Inr st"
    and rest: "choice_results_of sim m wc xs (dict_set k st acc) = Inr crs"
    by (auto simp: p split: sum.splits)
  from st have sid: "st_choice_id st = k"
    by (auto simp: stats_of_def split: sum.splits if_splits)
  from Cons.prems(2) have new: "k \<notin> fst ` set acc" by (auto simp: p)
  from Cons.prems(2) have "distinct (map fst (dict_set k st acc) @ map fst xs)"
    by (auto simp: p dict_set_new [OF new])
  from Cons.IH [OF rest this] obtain sts where
    "crs = dict_set k st acc @ sts" "map fst sts = map fst xs"
    "map (\<lambda>p. st_choice_id (snd p)) sts = map fst xs"
    by blast
  then have "crs = acc @ ((k, st) # sts) \<and> map fst ((k, st) # sts) = map fst (p # xs) \<and>
      map (\<lambda>p. st_choice_id (snd p)) ((k, st) # sts) = map fst (p # xs)"
    by (simp add: p sid dict_set_new [OF new])
  then show ?case by blast
qed

lemma sorted_reverse_descending: "sorted (rev (map key (sorted_reverse key xs)))"
  by (simp add: sorted_reverse_def rev_map)

lemma sorted_reverse_stable:
  "filter (\<lambda>x. key x = m) (sorted_reverse key xs) = filter (\<lambda>x. key x = m) xs"
proof -
  have "filter (\<lambda>x. key x = m) (sorted_reverse key xs)
          = rev (filter (\<lambda>x. key x = m) (sort_key key (rev xs)))"
    by (simp add: sorted_reverse_def rev_filter)
  also have "\<dots> = rev (filter (\<lambda>x. key x = m) (rev xs))"
    by (simp only: sort_key_stable)
  also have "\<dots> = filter (\<lambda>x. key x = m) xs"
    by (simp add: rev_filter)
  finally show ?thesis .
qed

lemma keys_choices_DecisionSimulator:
  "distinct (map c_id cs) \<Longrightarrow> map fst (choices (DecisionSimulator cs fs ss)) = map c_id cs"
  by (simp add: DecisionSimulator_def dict_comp_distinct comp_def)

lemma distinct_choices_DecisionSimulator:
  "distinct (map fst (choices (DecisionSimulator cs fs ss)))"
  by (simp add: DecisionSimulator_def distinct_dict_comp)

lemma simulation_round_winner:
  assumes "simulate_choices sim ar g = (rs, ar1, g1)"
    and "simulation_round sim (ar, wc, g) = (ar', wc', g')"
    and "choices sim \<noteq> []"
  shows "\<exists>pre w v post. rs = pre @ (w, v) # post \<and>
           (\<forall>p \<in> set pre. snd p < v) \<and> (\<forall>p \<in> set post. snd p \<le> v) \<and>
           wc' = dict_map_entry w Suc wc"
proof -
  from simulate_choices_keys(1) [OF assms(1)] assms(3) have "rs \<noteq> []" by auto
  then obtain w where w: "py_max rs = Some w"
    using py_max_in by blast
  with assms(1,2) have wc': "wc' = dict_map_entry w Suc wc"
    by (simp add: simulation_round_def)
  from py_max_first [OF w] obtain pre v post where
    "rs = pre @ (w, v) # post \<and> (\<forall>p \<in> set pre. snd p < v) \<and> (\<forall>p \<in> set post. snd p \<le> v)"
    by blast
  with wc' have "rs = pre @ (w, v) # post \<and>
           (\<forall>p \<in> set pre. snd p < v) \<and> (\<forall>p \<in> set post. snd p \<le> v) \<and>
           wc' = dict_map_entry w Suc wc"
    by simp
  then show ?thesis by (intro exI)
qed

lemma run_simulation_rankings:
  assumes "run_simulation sim n rng = Inr r" and "distinct (map fst (choices sim))"
  shows "map (\<lambda>p. st_choice_id (snd p)) (choice_results r) = map fst (choices sim)"
    and "rankings r = sorted_reverse st_mean (map snd (choice_results r))"
proof -
  obtain ar wc g where loop: "simulation_loop sim n rng = (ar, wc, g)"
    by (cases "simulation_loop sim n rng")
  from assms(1) obtain crs where
    crs: "choice_results_of sim (min n MAX_SIMULATION_RUNS) wc ar [] = Inr crs"
    and r: "choice_results r = crs" "rankings r = sorted_reverse st_mean (map snd crs)"
    by (auto simp: run_simulation_def loop Let_def split: sum.splits)
  from r show "rankings r = sorted_reverse st_mean (map snd (choice_results r))" by simp
  have "fst ` set (dict_comp (\<lambda>choice_id. choice_id) (\<lambda>_. 0::nat) (map fst (choices sim)))
          = fst ` set (choices sim)"
    by (simp add: set_keys_dict_comp)
  from run_rounds_keys [OF loop [unfolded simulation_loop_def] this]
  have "map fst ar = map fst (dict_comp (\<lambda>choice_id. choice_id) (\<lambda>_. []::real list)
                               (map fst (choices sim)))"
    by simp
  also have "\<dots> = map fst (choices sim)"
    using assms(2) by (simp add: dict_comp_distinct comp_def)
  finally have keys: "map fst ar = map fst (choices sim)" .
  with assms(2) have "distinct (map fst [] @ map fst ar)" by simp
  from choice_results_of_order [OF crs this] keys r(1)
  show "map (\<lambda>p. st_choice_id (snd p)) (choice_results r) = map fst (choices sim)"
    by auto
qed

text \<open>
  Against claim C5 as stated: choice 2 is supplied before choice 1 and both always total
  5. The single round is won by choice 2, not by the smaller id 1, and the rankings list
  choice 2 before choice 1.
\<close>

theorem tie_break_counterexample:
  "simulation_loop tied_choices 1 rng5 = ([(2, [5]), (1, [5])], [(2, 1), (1, 0)], rng5) \<and>
   map_sum (\<lambda>e. e) (\<lambda>r. map (\<lambda>s. (st_choice_id s, st_mean s)) (rankings r))
     (run_simulation tied_choices 1 rng5) = Inr [(2, 5), (1, 5)]"
  by (simp add: tied_choices_def model_defs run_defs np_mean_def)

text \<open>
  Claim C5, as the code has it. Ties go to the choice supplied first, not to the smallest
  id. The simulator keeps the choices in the order of supply (first occurrence of each
  id). In a round the totals are computed in that order, and the counter incremented is
  that of the first choice, in that order, whose total no other choice exceeds. The
  rankings are the per-choice statistics, which are in the order of supply, sorted by
  mean in descending order by a stable sort: choices with equal mean keep the order of
  supply.
\<close>

theorem tie_break_supply_order:
  assumes "sim = DecisionSimulator cs fs ss"
  shows "(distinct (map c_id cs) \<longrightarrow> map fst (choices sim) = map c_id cs) \<and>
         (simulate_choices sim ar g = (rs, ar1, g1) \<longrightarrow>
          simulation_round sim (ar, wc, g) = (ar', wc', g') \<longrightarrow> cs \<noteq> [] \<longrightarrow>
            map fst rs = map fst (choices sim) \<and>
            (\<exists>pre w v post. rs = pre @ (w, v) # post \<and>
               (\<forall>p \<in> set pre. snd p < v) \<and> (\<forall>p \<in> set post. snd p \<le> v) \<and>
               wc' = dict_map_entry w Suc wc)) \<and>
         (run_simulation sim n rng = Inr r \<longrightarrow>
            map (\<lambda>p. st_choice_id (snd p)) (choice_results r) = map fst (choices sim) \<and>
            sorted (rev (map st_mean (rankings r))) \<and>
            (\<forall>m. filter (\<lambda>s. st_mean s = m) (rankings r)
                   = filter (\<lambda>s. st_mean s = m) (map snd (choice_results r))))"
proof (intro conjI impI allI)
  assume "distinct (map c_id cs)"
  then show "map fst (choices sim) = map c_id cs"
    unfolding assms by (rule keys_choices_DecisionSimulator)
next
  have d: "distinct (map fst (choices sim))"
    unfolding assms by (rule distinct_choices_DecisionSimulator)
  {
    assume sc: "simulate_choices sim ar g = (rs, ar1, g1)"
    from sc d show "map fst rs = map fst (choices sim)"
      by (rule simulate_choices_order)
    assume sr: "simulation_round sim (ar, wc, g) = (ar', wc', g')" and "cs \<noteq> []"
    then have "c_id ` set cs \<noteq> {}" by simp
    then have "fst ` set (choices sim) \<noteq> {}"
      by (simp add: assms DecisionSimulator_def set_keys_dict_comp)
    then have "choices sim \<noteq> []" by auto
    with sc sr show "\<exists>pre w v post. rs = pre @ (w, v) # post \<and>
               (\<forall>p \<in> set pre. snd p < v) \<and> (\<forall>p \<in> set post. snd p \<le> v) \<and>
               wc' = dict_map_entry w Suc wc"
      by (rule simulation_round_winner)
  }
  {
    assume r: "run_simulation sim n rng = Inr r"
    from run_simulation_rankings(1) [OF r d]
    show "map (\<lambda>p. st_choice_id (snd p)) (choice_results r) = map fst (choices sim)" .
    from run_simulation_rankings(2) [OF r d]
    show "sorted (rev (map st_mean (rankings r)))"
      by (simp only: sorted_reverse_descending)
    fix m
    from run_simulation_rankings(2) [OF r d]
    show "filter (\<lambda>s. st_mean s = m) (rankings r)
            = filter (\<lambda>s. st_mean s = m) (map snd (choice_results r))"
      by (simp only: sorted_reverse_stable)
  }
qed

theorem tie_break_supply_order_witness:
  "tied_choices = DecisionSimulator [choice_b, choice_a] [factor_of 1 1]
                    [score_of 1 1 5 0, score_of 2 1 5 0] \<and>
   distinct (map c_id [choice_b, choice_a]) \<and>
   map fst (choices tied_choices) = [2, 1] \<and>
   simulate_choices tied_choices [(2, []), (1, [])] rng5
     = ([(2, 5), (1, 5)], [(2, [5]), (1, [5])], rng5) \<and>
   simulation_round tied_choices ([(2, []), (1, [])], [(2, 0), (1, 0)], rng5)
     = ([(2, [5]), (1, [5])], [(2, 1), (1, 0)], rng5) \<and>
   [choice_b, choice_a] \<noteq> [] \<and>
   map_sum (\<lambda>e. e) (\<lambda>r. map (\<lambda>p. st_choice_id (snd p)) (choice_results r))
     (run_simulation tied_choices 1 rng5) = Inr [2, 1]"
proof -
  have sc: "simulate_choices tied_choices [(2, []), (1, [])] rng5
              = ([(2, 5), (1, 5)], [(2, [5]), (1, [5])], rng5)"
    by (simp add: tied_choices_def model_defs run_defs)
  have sr: "simulation_round tied_choices ([(2, []), (1, [])], [(2, 0), (1, 0)], rng5)
              = ([(2, [5]), (1, [5])], [(2, 1), (1, 0)], rng5)"
    by (simp add: tied_choices_def model_defs run_defs)
  have "choices tied_choices \<noteq> []"
    by (simp add: tied_choices_def model_defs)
  then obtain r where r: "run_simulation tied_choices 1 rng5 = Inr r"
    using run_simulation_completes [of tied_choices 1 rng5] by auto
  note T = tie_break_supply_order [OF tied_choices_def, of "[(2, []), (1, [])]" rng5
      "[(2, 5), (1, 5)]" "[(2, [5]), (1, [5])]" rng5 "[(2, 0), (1, 0)]"
      "[(2, [5]), (1, [5])]" "[(2, 1), (1, 0)]" rng5 1 rng5 r]
  have d: "distinct (map c_id [choice_b, choice_a])"
    by (simp add: choice_a_def choice_b_def)
  from T [THEN conjunct1, THEN mp, OF d] have k: "map fst (choices tied_choices) = [2, 1]"
    by (simp add: choice_a_def choice_b_def)
  from T [THEN conjunct2, THEN conjunct2, THEN mp, OF r, THEN conjunct1] k r have cr: "map_sum (\<lambda>e. e) (\<lambda>r. map (\<lambda>p. st_choice_id (snd p)) (choice_results r))
     (run_simulation tied_choices 1 rng5) = Inr [2, 1]"
    by simp
  have "[choice_b, choice_a] \<noteq> []" by simp
  with tied_choices_def d k sc sr cr show ?thesis
    by (intro conjI)
qed

subsection \<open>Sensitivity analysis\<close>

lemmas sens_defs = sensitivity_analysis_def linspace_def py_max_def Let_def

lemma dict_get_absent: "k \<notin> key ` set xs \<Longrightarrow> dict_get (dict_comp key val xs) k = None"
  by (auto simp: dict_get_dict_comp find_None_iff)

lemma sensitivity_loop_absent:
  "dict_get (normalized_weights sim) factor_id = None \<Longrightarrow>
     sensitivity_loop sim factor_id w (m # ms) results = (Inl (KeyError factor_id), sim)"
  by (simp add: dict_index_def)

lemma linspace_cases:
  "linspace lo hi steps =
     (if steps < 0 then Inl ValueError
      else if steps = 0 then Inr []
      else Inr (lo # tl (map (\<lambda>i. lo + real i * ((hi - lo) / real_of_int (steps - 1)))
                          [0 ..< nat steps])))"
proof -
  have "[0 ..< nat steps] = 0 # [1 ..< nat steps]" if "0 < steps"
    using that by (simp add: upt_conv_Cons)
  then show ?thesis
    by (auto simp: linspace_def)
qed

text \<open>
  Against claim C4 as stated: for the unknown factor id 99 and \<open>steps = -1\<close> the call
  fails with the \<^verbatim>\<open>ValueError\<close> of \<^verbatim>\<open>np.linspace\<close>, before any lookup of the
  factor.
\<close>

theorem sensitivity_unknown_factor_counterexample:
  "sensitivity_analysis (DecisionSimulator [choice_a] [factor_of 1 1] [score_of 1 1 5 0])
     99 (1 / 2, 2) (- 1)
   = (Inl ValueError, DecisionSimulator [choice_a] [factor_of 1 1] [score_of 1 1 5 0])"
  by (simp add: sens_defs)

text \<open>
  Claim C4, as the code has it. For a factor id that is not among the supplied factors
  \<^verbatim>\<open>sensitivity_analysis\<close> always fails and leaves the simulator unchanged. The
  failure is the \<^verbatim>\<open>KeyError\<close> of the first lookup of that id (in the weight table
  inside the loop, or in \<^verbatim>\<open>self.factors\<close> when \<open>steps = 0\<close>), whenever
  \<open>steps \<ge> 0\<close>; for \<open>steps < 0\<close> it is the \<^verbatim>\<open>ValueError\<close> of
  \<^verbatim>\<open>np.linspace\<close>.
\<close>

theorem sensitivity_unknown_factor:
  assumes "factor_id \<notin> f_id ` set fs"
  shows "sensitivity_analysis (DecisionSimulator cs fs ss) factor_id weight_range steps
           = (Inl (if steps < 0 then ValueError else KeyError factor_id),
              DecisionSimulator cs fs ss)"
proof -
  let ?sim = "DecisionSimulator cs fs ss"
  have nw: "dict_get (normalized_weights ?sim) factor_id = None"
    using assms by (simp add: DecisionSimulator_def normalize_weights_def Let_def dict_get_absent)
  have fa: "dict_get (factors ?sim) factor_id = None"
    using assms by (simp add: DecisionSimulator_def dict_get_absent)
  show ?thesis
  proof (cases "steps < 0")
    case True
    then show ?thesis
      by (simp add: sensitivity_analysis_def linspace_def)
  next
    case False
    show ?thesis
    proof (cases "steps = 0")
      case True
      then show ?thesis
        by (simp add: sensitivity_analysis_def linspace_def dict_index_def fa)
    next
      case nz: False
      with False obtain m ms where
        "linspace (fst weight_range) (snd weight_range) steps = Inr (m # ms)"
        by (simp add: linspace_cases)
      with False show ?thesis
        by (simp add: sensitivity_analysis_def dict_index_def nw)
    qed
  qed
qed

theorem sensitivity_unknown_factor_witness:
  "99 \<notin> f_id ` set [factor_of 1 1] \<and>
   sensitivity_analysis (DecisionSimulator [choice_a] [factor_of 1 1] [score_of 1 1 5 0])
     99 (1 / 2, 2) 10
   = (Inl (KeyError 99), DecisionSimulator [choice_a] [factor_of 1 1] [score_of 1 1 5 0])"
  using sensitivity_unknown_factor [of 99 "[factor_of 1 1]" "[choice_a]" "[score_of 1 1 5 0]"
      "(1 / 2, 2)" 10]
  by (simp add: factor_of_def)

text \<open>
  Claim C2 at a concrete input: two factors of equal weight, the sweep of factor 1 over
  the multipliers \<open>[1/2, 1]\<close>. The weight table is \<open>[(1, 1/2), (2, 1/2)]\<close> before the
  call and \<open>[(1, 1/2), (2, 4/7)]\<close> after it: each iteration replaces the table by the
  renormalised one and restores only the entry of factor 1. The iteration for
  multiplier 1 reports 30/7 when multiplier 1/2 precedes it and 5 when it runs alone.
\<close>

theorem sensitivity_weights_leak:
  "normalized_weights two_factors = [(1, 1 / 2), (2, 1 / 2)] \<and>
   normalized_weights (snd (sensitivity_analysis two_factors 1 (1 / 2, 1) 2))
     = [(1, 1 / 2), (2, 4 / 7)] \<and>
   map_sum (\<lambda>e. e) (\<lambda>r. map (\<lambda>e. (e_multiplier e, e_scores e)) (r_analysis r))
     (fst (sensitivity_analysis two_factors 1 (1 / 2, 1) 2))
     = Inr [(1 / 2, [(''A'', 10 / 3)]), (1, [(''A'', 30 / 7)])] \<and>
   map_sum (\<lambda>e. e) (\<lambda>r. map (\<lambda>e. (e_multiplier e, e_scores e)) (r_analysis r))
     (fst (sensitivity_analysis two_factors 1 (1, 1) 1))
     = Inr [(1, [(''A'', 5)])]"
  by (simp add: two_factors_def model_defs sens_defs numeral_2_eq_2)

text \<open>
  Claim C6 at the same input: the unperturbed deterministic score of choice 1 is 5, and
  the entry for multiplier 1 of the sweep over \<open>[1/2, 1]\<close> reports 30/7.
\<close>

theorem sensitivity_multiplier_one_differs:
  "calculate_weighted_score two_factors 1 = 5 \<and>
   map_sum (\<lambda>e. e) (\<lambda>r. map (\<lambda>e. (e_multiplier e, e_scores e, e_winner e)) (r_analysis r))
     (fst (sensitivity_analysis two_factors 1 (1 / 2, 1) 2))
     = Inr [(1 / 2, [(''A'', 10 / 3)], ''A''), (1, [(''A'', 30 / 7)], ''A'')]"
  by (simp add: two_factors_def model_defs sens_defs numeral_2_eq_2)

end
